theory Spec2Isabelle
  imports Main "HOL-Library.Sublist"
begin

section \<open>The queue-based BaseService of base.go\<close>

text \<open>
  The development embeds the second (queue-based) \<^verbatim>\<open>BaseService\<close> of \<^verbatim>\<open>src/base.go\<close>
  (lines 131--308). Channels made by \<^verbatim>\<open>make(chan struct{})\<close> live in a heap of flags
  (one per channel, \<open>True\<close> once closed); a nil channel is \<open>None\<close>. Goroutines spawned by
  \<^verbatim>\<open>go bas.processRequests()\<close> are program counters in a list, and so are the callers that
  are inside \<^verbatim>\<open>Start\<close>, \<^verbatim>\<open>Stop\<close> or \<^verbatim>\<open>Request\<close>; one step is one statement of the source, so
  that calls and goroutines interleave between any two statements. Every effect is also
  appended to a trace, so that the order of effects can be stated.
\<close>

subsection \<open>Values\<close>

type_synonym chan = nat
type_synonym ctx = nat

text \<open>
  \<^verbatim>\<open>errors.New(msg)\<close> is \<open>Error msg\<close>; a run-time panic is \<open>Panic msg\<close>: the call does
  not return.
\<close>

datatype error = Error string | Panic string

text \<open>
  A value passed as \<^verbatim>\<open>Args\<close> (\<^verbatim>\<open>interface{}\<close>) to \<^verbatim>\<open>queueRequest\<close>: nil, a
  \<^verbatim>\<open>context.Context\<close>, or an opaque payload. \<^verbatim>\<open>reflect.ValueOf\<close> of nil is the zero
  \<^verbatim>\<open>reflect.Value\<close>.
\<close>

datatype 'a Args = NilArg | CtxArg ctx | AnyArg 'a

datatype 'a reflect_Value = Zero | Context ctx | Arg 'a

fun reflect_ValueOf :: "'a Args \<Rightarrow> 'a reflect_Value" where
  "reflect_ValueOf NilArg = Zero"
| "reflect_ValueOf (CtxArg c) = Context c"
| "reflect_ValueOf (AnyArg a) = Arg a"

text \<open>\<^verbatim>\<open>reflect.ValueOf(fn)\<close>: the only function ever queued is \<^verbatim>\<open>bas.service.OnRequest\<close>.\<close>

datatype func = OnRequest

record 'a queuedCall =
  Func :: func
  Args :: "'a reflect_Value list"

text \<open>
  The limiter of \<^verbatim>\<open>go.uber.org/ratelimit\<close> is an external library: a limiter is kept as
  the arguments \<^verbatim>\<open>ratelimit.New\<close> was called with (the rate per second and the options).
\<close>

datatype ratelimit_Option = WithoutSlack

datatype limiter = ratelimit_New int "ratelimit_Option list"

subsection \<open>The request queue\<close>

text \<open>
  Modelled from the spec: the queue of \<^verbatim>\<open>github.com/caffix/queue\<close> is an external
  library whose source is not part of the repository. The spec consumes it as
  "a FIFO queue supporting {append(item), length(), wait-for-nonempty-signal(),
  drain-and-process(callback)}": a list appended at the back and read at the front, whose
  signal is ready while the list is not empty. \<open>Process\<close> is the loop
  "fetch the front element, run the callback on it, until the queue is empty"; it is
  unfolded into goroutine steps below (\<open>InProcess\<close>, \<open>InEach\<close>).
\<close>

definition NewQueue :: "'e list" where
  "NewQueue = []"

definition Append :: "'e list \<Rightarrow> 'e \<Rightarrow> 'e list" where
  "Append q x = q @ [x]"

definition Signal :: "'e list \<Rightarrow> bool" where
  "Signal q = (q \<noteq> [])"

definition Next :: "'e list \<Rightarrow> ('e \<times> 'e list) option" where
  "Next q = (case q of [] \<Rightarrow> None | x # rest \<Rightarrow> Some (x, rest))"

subsection \<open>The struct\<close>

text \<open>
  The fields of \<^verbatim>\<open>BaseService\<close> (lines 148--158). The two mutexes carry no data; the
  field \<^verbatim>\<open>done\<close> is \<open>done_chan\<close> here. The embedding \<^verbatim>\<open>service\<close> is the source of the three
  hooks; they are parameters of the operations that call them.
\<close>

record 'a BaseService =
  name :: string
  runs :: bool
  queue :: "'a queuedCall list"
  done_chan :: "chan option"
  rlimit :: "limiter option"

text \<open>The program counter of one \<^verbatim>\<open>processRequests\<close> goroutine (lines 287--308).\<close>

datatype 'a pc =
    AtFor
  | InSelect "chan option"
  | InProcess
  | InEach "'a queuedCall"
  | InDefault "'a queuedCall"
  | InCall "'a queuedCall"
  | Exited

text \<open>
  The program counter of one caller that has passed the guard of \<^verbatim>\<open>Start\<close> (line 176),
  \<^verbatim>\<open>Stop\<close> (line 207) or \<^verbatim>\<open>Request\<close> (line 228): the statement it runs next, or the hook
  it is in.
\<close>

datatype 'a frame =
    StartMake
  | StartGo
  | StartSet
  | InOnStart
  | StopSet
  | StopClose
  | InOnStop
  | RequestQueue "ctx option" "'a option"
  | Returned

datatype 'a event =
    EvMake chan
  | EvGo nat
  | EvSetRunning bool
  | EvOnStart
  | EvStartRet "error option"
  | EvClose chan
  | EvOnStop
  | EvStopRet "error option"
  | EvAppend "'a queuedCall"
  | EvInvoke nat "'a queuedCall"
  | EvDrop nat "'a queuedCall"
  | EvReturn nat "'a queuedCall"
  | EvTake limiter
  | EvCancel ctx

text \<open>
  The service together with what it shares with its environment: the channel heap, the
  set of cancelled contexts, the dispatcher goroutines, the callers inside a call,
  whether the process has panicked, and the trace.
\<close>

record 'a world =
  bas :: "'a BaseService"
  chans :: "bool list"
  cancelled :: "ctx set"
  procs :: "'a pc list"
  callers :: "'a frame list"
  panicked :: bool
  trace :: "'a event list"

definition emit :: "'a event \<Rightarrow> 'a world \<Rightarrow> 'a world" where
  "emit ev w = w\<lparr>trace := trace w @ [ev]\<rparr>"

subsection \<open>Constructor and accessors\<close>

text \<open>\<^verbatim>\<open>NewBaseService\<close> (lines 161--167): \<^verbatim>\<open>done\<close>, \<^verbatim>\<open>runs\<close> and \<^verbatim>\<open>rlimit\<close> keep their zero values.\<close>

definition NewBaseService :: "string \<Rightarrow> 'a BaseService" where
  "NewBaseService nm =
     \<lparr>name = nm, runs = False, queue = NewQueue, done_chan = None, rlimit = None\<rparr>"

definition running :: "'a BaseService \<Rightarrow> bool" where
  "running b = runs b"

definition setRunning :: "bool \<Rightarrow> 'a BaseService \<Rightarrow> 'a BaseService" where
  "setRunning val b = b\<lparr>runs := val\<rparr>"

definition Len :: "'a BaseService \<Rightarrow> nat" where
  "Len b = length (queue b)"

definition Done :: "'a BaseService \<Rightarrow> chan option" where
  "Done b = done_chan b"

text \<open>The world right after the constructor: no channel, no goroutine, no caller, empty trace.\<close>

definition init :: "string \<Rightarrow> 'a world" where
  "init nm =
     \<lparr>bas = NewBaseService nm, chans = [], cancelled = {}, procs = [],
      callers = [], panicked = False, trace = []\<rparr>"

subsection \<open>Channels\<close>

text \<open>
  \<^verbatim>\<open>make(chan struct{})\<close> allocates the next channel, open. Nothing is ever sent on a done
  channel, so a receive \<^verbatim>\<open><-ch\<close> is ready exactly when the channel is closed; a receive
  on a nil channel is never ready. \<^verbatim>\<open>close\<close> panics on a nil or a closed channel.
\<close>

definition make_chan :: "'a world \<Rightarrow> chan \<times> 'a world" where
  "make_chan w = (length (chans w), emit (EvMake (length (chans w))) (w\<lparr>chans := chans w @ [False]\<rparr>))"

definition recv_ready :: "bool list \<Rightarrow> chan option \<Rightarrow> bool" where
  "recv_ready cs ch = (case ch of None \<Rightarrow> False | Some c \<Rightarrow> c < length cs \<and> cs ! c)"

definition chan_open :: "bool list \<Rightarrow> chan option \<Rightarrow> bool" where
  "chan_open cs ch = (case ch of None \<Rightarrow> False | Some c \<Rightarrow> c < length cs \<and> \<not> cs ! c)"

definition close_chan :: "chan option \<Rightarrow> 'a world \<Rightarrow> 'a world option" where
  "close_chan ch w =
     (case ch of
        None \<Rightarrow> None
      | Some c \<Rightarrow>
          if chan_open (chans w) (Some c)
          then Some (emit (EvClose c) (w\<lparr>chans := (chans w)[c := True]\<rparr>))
          else None)"

subsection \<open>Start and Stop\<close>

text \<open>\<^verbatim>\<open>go bas.processRequests()\<close>: a new goroutine, about to enter the \<^verbatim>\<open>for\<close> loop.\<close>

definition go_processRequests :: "'a world \<Rightarrow> 'a world" where
  "go_processRequests w = emit (EvGo (length (procs w))) (w\<lparr>procs := procs w @ [AtFor]\<rparr>)"

text \<open>
  The statements of \<^verbatim>\<open>Start\<close> after its guard: line 180 (\<^verbatim>\<open>bas.done = make(chan struct{})\<close>),
  line 181 (\<open>go_processRequests\<close>) and line 182 (\<^verbatim>\<open>bas.setRunning(true)\<close>).
\<close>

definition Start_make :: "'a world \<Rightarrow> 'a world" where
  "Start_make w = (let (c, w1) = make_chan w in w1\<lparr>bas := (bas w1)\<lparr>done_chan := Some c\<rparr>\<rparr>)"

definition Start_set :: "'a world \<Rightarrow> 'a world" where
  "Start_set w = emit (EvSetRunning True) (w\<lparr>bas := setRunning True (bas w)\<rparr>)"

text \<open>
  \<^verbatim>\<open>Start\<close> (lines 175--184) up to the call of the hook, run by one caller without
  interruption. The result is the error returned early, or \<open>None\<close> when the hook is to be
  called next.
\<close>

definition Start_body :: "'a world \<Rightarrow> error option \<times> 'a world" where
  "Start_body w =
     (if running (bas w) then (Some (Error (name (bas w) @ '' has already been started'')), w)
      else
        let w2 = Start_make w;
            w3 = go_processRequests w2;
            w4 = Start_set w3
        in (None, w4))"

text \<open>
  A hook is arbitrary code of the embedding service: it gets the world and returns its
  error with the world it leaves. \<^verbatim>\<open>Start\<close> returns whatever \<^verbatim>\<open>OnStart\<close> returns.
\<close>

type_synonym 'a hook = "'a world \<Rightarrow> error option \<times> 'a world"

definition Start :: "'a hook \<Rightarrow> 'a world \<Rightarrow> error option \<times> 'a world" where
  "Start OnStart w =
     (case Start_body w of
        (Some e, w') \<Rightarrow> (Some e, w')
      | (None, w') \<Rightarrow> OnStart (emit EvOnStart w'))"

text \<open>
  The statements of \<^verbatim>\<open>Stop\<close> after its guard: line 211 (\<^verbatim>\<open>bas.setRunning(false)\<close>) and
  line 212 (\<^verbatim>\<open>close(bas.done)\<close>, which may panic).
\<close>

definition Stop_set :: "'a world \<Rightarrow> 'a world" where
  "Stop_set w = emit (EvSetRunning False) (w\<lparr>bas := setRunning False (bas w)\<rparr>)"

definition Stop_close :: "'a world \<Rightarrow> error option \<times> 'a world" where
  "Stop_close w =
     (case close_chan (done_chan (bas w)) w of
        None \<Rightarrow> (Some (Panic ''close of nil or closed channel''), w\<lparr>panicked := True\<rparr>)
      | Some w2 \<Rightarrow> (None, w2))"

text \<open>
  \<^verbatim>\<open>Stop\<close> (lines 206--214) up to the call of the hook, run by one caller without
  interruption.
\<close>

definition Stop_body :: "'a world \<Rightarrow> error option \<times> 'a world" where
  "Stop_body w =
     (if \<not> running (bas w) then (Some (Error (name (bas w) @ '' is already stopped'')), w)
      else
        let w1 = Stop_set w
        in Stop_close w1)"

definition Stop :: "'a hook \<Rightarrow> 'a world \<Rightarrow> error option \<times> 'a world" where
  "Stop OnStop w =
     (case Stop_body w of
        (Some e, w') \<Rightarrow> (Some e, w')
      | (None, w') \<Rightarrow> OnStop (emit EvOnStop w'))"

text \<open>The default hooks of \<^verbatim>\<open>BaseService\<close> (lines 187--189, 217--219) return nil.\<close>

definition OnStart :: "'a hook" where
  "OnStart w = (None, w)"

definition OnStop :: "'a hook" where
  "OnStop w = (None, w)"

subsection \<open>Request\<close>

text \<open>
  \<^verbatim>\<open>queueRequest\<close> (lines 275--285): the loop appends \<^verbatim>\<open>reflect.ValueOf(arg)\<close> of each
  variadic argument to \<^verbatim>\<open>passedArgs\<close>, then the call is appended to the queue.
\<close>

definition queueRequest :: "func \<Rightarrow> 'a Args list \<Rightarrow> 'a world \<Rightarrow> 'a world" where
  "queueRequest fn args w =
     (let passedArgs = foldl (\<lambda>passed arg. passed @ [reflect_ValueOf arg]) [] args;
          e = \<lparr>Func = fn, Args = passedArgs\<rparr>
      in emit (EvAppend e) (w\<lparr>bas := (bas w)\<lparr>queue := Append (queue (bas w)) e\<rparr>\<rparr>))"

text \<open>
  The arguments of \<^verbatim>\<open>Request(ctx context.Context, args Args)\<close> as they are passed on to
  \<^verbatim>\<open>queueRequest\<close>: both are interface values and may be nil (\<open>None\<close>).
\<close>

definition ctx_Args :: "ctx option \<Rightarrow> 'a Args" where
  "ctx_Args c = (case c of None \<Rightarrow> NilArg | Some x \<Rightarrow> CtxArg x)"

definition payload_Args :: "'a option \<Rightarrow> 'a Args" where
  "payload_Args a = (case a of None \<Rightarrow> NilArg | Some x \<Rightarrow> AnyArg x)"

text \<open>Line 229, the statement of \<^verbatim>\<open>Request\<close> after its guard.\<close>

definition Request_queue :: "ctx option \<Rightarrow> 'a option \<Rightarrow> 'a world \<Rightarrow> 'a world" where
  "Request_queue c args w = queueRequest OnRequest [ctx_Args c, payload_Args args] w"

text \<open>
  \<^verbatim>\<open>Request\<close> (lines 227--231), run by one caller without interruption; it returns
  nothing.
\<close>

definition Request :: "ctx option \<Rightarrow> 'a option \<Rightarrow> 'a world \<Rightarrow> 'a world" where
  "Request c args w = (if running (bas w) then Request_queue c args w else w)"

subsection \<open>Rate limit\<close>

text \<open>\<^verbatim>\<open>SetRateLimit\<close> (lines 247--257).\<close>

definition SetRateLimit :: "int \<Rightarrow> 'a BaseService \<Rightarrow> 'a BaseService" where
  "SetRateLimit persec b =
     (if persec = 0 then b\<lparr>rlimit := None\<rparr>
      else b\<lparr>rlimit := Some (ratelimit_New persec [WithoutSlack])\<rparr>)"

text \<open>
  \<^verbatim>\<open>CheckRateLimit\<close> (lines 260--268): reads the limiter under the lock, then calls
  \<^verbatim>\<open>Take\<close> on it unless it is nil. The blocking call is the event \<open>EvTake\<close>.
\<close>

definition CheckRateLimit :: "'a world \<Rightarrow> 'a world" where
  "CheckRateLimit w =
     (let rl = rlimit (bas w)
      in case rl of None \<Rightarrow> w | Some l \<Rightarrow> emit (EvTake l) w)"

subsection \<open>The dispatcher goroutine\<close>

text \<open>
  The callback \<^verbatim>\<open>each\<close> (lines 288--298). \<^verbatim>\<open>e.Args[0].Interface().(context.Context)\<close>
  panics when there is no first argument, when it is the zero value (a nil context was
  passed) or when it is not a context; the \<^verbatim>\<open>select\<close> takes a ready case when there is one
  (both drop the request) and \<^verbatim>\<open>default\<close> otherwise. In the \<^verbatim>\<open>default\<close> case, line 296 runs
  next: \<^verbatim>\<open>e.Func.Call(e.Args)\<close> panics unless the arguments fit \<^verbatim>\<open>OnRequest(ctx, args)\<close>; a
  zero value (nil \<^verbatim>\<open>args\<close>) does not.
\<close>

datatype verdict = Dropped | Default | Crashed

definition first_ctx :: "'a queuedCall \<Rightarrow> ctx option" where
  "first_ctx e = (case Args e of Context c # _ \<Rightarrow> Some c | _ \<Rightarrow> None)"

definition fits_OnRequest :: "'a queuedCall \<Rightarrow> bool" where
  "fits_OnRequest e = (case Args e of [Context _, Arg _] \<Rightarrow> True | _ \<Rightarrow> False)"

definition each :: "'a queuedCall \<Rightarrow> 'a world \<Rightarrow> verdict" where
  "each e w =
     (case first_ctx e of
        None \<Rightarrow> Crashed
      | Some c \<Rightarrow>
          if c \<in> cancelled w then Dropped
          else if recv_ready (chans w) (Done (bas w)) then Dropped
          else Default)"

definition set_pc :: "nat \<Rightarrow> 'a pc \<Rightarrow> 'a world \<Rightarrow> 'a world" where
  "set_pc i p w = w\<lparr>procs := (procs w)[i := p]\<rparr>"

text \<open>
  One step of goroutine \<open>i\<close> other than leaving through \<^verbatim>\<open>case <-bas.Done()\<close>:
  \<^item> \<open>AtFor\<close>: enter the \<^verbatim>\<open>select\<close> of line 301; \<^verbatim>\<open>bas.Done()\<close> is evaluated now;
  \<^item> \<open>InSelect\<close>: the queue's signal is received (line 304) and \<^verbatim>\<open>Process\<close> is entered;
  \<^item> \<open>InProcess\<close>: \<^verbatim>\<open>Process\<close> fetches the front element, or returns to the loop;
  \<^item> \<open>InEach e\<close>: the callback runs its \<^verbatim>\<open>select\<close> (lines 292--295) and drops \<open>e\<close> or
    takes \<^verbatim>\<open>default\<close>;
  \<^item> \<open>InDefault e\<close>: line 296, \<^verbatim>\<open>e.Func.Call(e.Args)\<close>: the handler is entered, or the call
    panics;
  \<^item> \<open>InCall e\<close>: the handler is running; its return is the step \<open>handler_return\<close>.
  \<open>None\<close> means that the goroutine cannot move.
\<close>

definition sched :: "nat \<Rightarrow> 'a world \<Rightarrow> 'a world option" where
  "sched i w =
     (if i < length (procs w) then
        (case procs w ! i of
           AtFor \<Rightarrow> Some (set_pc i (InSelect (Done (bas w))) w)
         | InSelect d \<Rightarrow>
             if Signal (queue (bas w)) then Some (set_pc i InProcess w) else None
         | InProcess \<Rightarrow>
             (case Next (queue (bas w)) of
                None \<Rightarrow> Some (set_pc i AtFor w)
              | Some (e, rest) \<Rightarrow>
                  Some (set_pc i (InEach e) (w\<lparr>bas := (bas w)\<lparr>queue := rest\<rparr>\<rparr>)))
         | InEach e \<Rightarrow>
             (case each e w of
                Crashed \<Rightarrow> Some (w\<lparr>panicked := True\<rparr>)
              | Dropped \<Rightarrow> Some (set_pc i InProcess (emit (EvDrop i e) w))
              | Default \<Rightarrow> Some (set_pc i (InDefault e) w))
         | InDefault e \<Rightarrow>
             if fits_OnRequest e then Some (set_pc i (InCall e) (emit (EvInvoke i e) w))
             else Some (w\<lparr>panicked := True\<rparr>)
         | InCall e \<Rightarrow> None
         | Exited \<Rightarrow> None)
      else None)"

definition handler_return :: "nat \<Rightarrow> 'a world \<Rightarrow> 'a world option" where
  "handler_return i w =
     (if i < length (procs w) then
        (case procs w ! i of
           InCall e \<Rightarrow> Some (set_pc i InProcess (emit (EvReturn i e) w))
         | _ \<Rightarrow> None)
      else None)"

text \<open>The \<^verbatim>\<open>select\<close> of line 301 takes \<^verbatim>\<open>case <-bas.Done(): return\<close> (lines 302--303).\<close>

definition quit :: "nat \<Rightarrow> 'a world \<Rightarrow> 'a world option" where
  "quit i w =
     (if i < length (procs w) then
        (case procs w ! i of
           InSelect d \<Rightarrow> if recv_ready (chans w) d then Some (set_pc i Exited w) else None
         | _ \<Rightarrow> None)
      else None)"

subsection \<open>Executions\<close>

definition set_frame :: "nat \<Rightarrow> 'a frame \<Rightarrow> 'a world \<Rightarrow> 'a world" where
  "set_frame k f w = w\<lparr>callers := (callers w)[k := f]\<rparr>"

text \<open>
  The next statement of caller \<open>k\<close>. A caller inside a hook, or one that has returned,
  has none (\<open>None\<close>).
\<close>

definition advance :: "nat \<Rightarrow> 'a world \<Rightarrow> 'a world option" where
  "advance k w =
     (if k < length (callers w) then
        (case callers w ! k of
           StartMake \<Rightarrow> Some (set_frame k StartGo (Start_make w))
         | StartGo \<Rightarrow> Some (set_frame k StartSet (go_processRequests w))
         | StartSet \<Rightarrow> Some (set_frame k InOnStart (emit EvOnStart (Start_set w)))
         | StopSet \<Rightarrow> Some (set_frame k StopClose (Stop_set w))
         | StopClose \<Rightarrow>
             (case Stop_close w of
                (Some e, w') \<Rightarrow> Some (set_frame k Returned (emit (EvStopRet (Some e)) w'))
              | (None, w') \<Rightarrow> Some (set_frame k InOnStop (emit EvOnStop w')))
         | RequestQueue c args \<Rightarrow> Some (set_frame k Returned (Request_queue c args w))
         | InOnStart \<Rightarrow> None
         | InOnStop \<Rightarrow> None
         | Returned \<Rightarrow> None)
      else None)"

text \<open>The hook caller \<open>k\<close> is in returns \<open>r\<close>, and with it \<^verbatim>\<open>Start\<close> or \<^verbatim>\<open>Stop\<close>.\<close>

definition hook_return :: "nat \<Rightarrow> error option \<Rightarrow> 'a world \<Rightarrow> 'a world option" where
  "hook_return k r w =
     (if k < length (callers w) then
        (case callers w ! k of
           InOnStart \<Rightarrow> Some (set_frame k Returned (emit (EvStartRet r) w))
         | InOnStop \<Rightarrow> Some (set_frame k Returned (emit (EvStopRet r) w))
         | _ \<Rightarrow> None)
      else None)"

text \<open>
  What can happen next. A new caller enters \<^verbatim>\<open>Start\<close>, \<^verbatim>\<open>Stop\<close> or \<^verbatim>\<open>Request\<close> and
  evaluates its guard (one read of \<^verbatim>\<open>runs\<close> under the lock): it returns at once, or
  becomes a caller with statements left. A caller runs its next statement. A hook
  returns. A caller runs \<^verbatim>\<open>SetRateLimit\<close> (one critical section) or \<^verbatim>\<open>CheckRateLimit\<close>. A
  context is cancelled. A dispatcher goroutine moves, leaves, or its handler returns.
  Nothing moves after a panic.
\<close>

datatype 'a action =
    CallStart
  | CallStop
  | CallRequest "ctx option" "'a option"
  | Advance nat
  | HookReturn nat "error option"
  | CallSetRateLimit int
  | CallCheckRateLimit
  | Cancel ctx
  | Sched nat
  | Quit nat
  | Return nat

definition step :: "'a action \<Rightarrow> 'a world \<Rightarrow> 'a world option" where
  "step a w =
     (if panicked w then None
      else
        (case a of
           CallStart \<Rightarrow>
             if running (bas w)
             then Some (emit (EvStartRet (Some (Error (name (bas w) @ '' has already been started'')))) w)
             else Some (w\<lparr>callers := callers w @ [StartMake]\<rparr>)
         | CallStop \<Rightarrow>
             if \<not> running (bas w)
             then Some (emit (EvStopRet (Some (Error (name (bas w) @ '' is already stopped'')))) w)
             else Some (w\<lparr>callers := callers w @ [StopSet]\<rparr>)
         | CallRequest c args \<Rightarrow>
             if running (bas w) then Some (w\<lparr>callers := callers w @ [RequestQueue c args]\<rparr>)
             else Some w
         | Advance k \<Rightarrow> advance k w
         | HookReturn k r \<Rightarrow> hook_return k r w
         | CallSetRateLimit n \<Rightarrow> Some (w\<lparr>bas := SetRateLimit n (bas w)\<rparr>)
         | CallCheckRateLimit \<Rightarrow> Some (CheckRateLimit w)
         | Cancel c \<Rightarrow> Some (emit (EvCancel c) (w\<lparr>cancelled := insert c (cancelled w)\<rparr>))
         | Sched i \<Rightarrow> sched i w
         | Quit i \<Rightarrow> quit i w
         | Return i \<Rightarrow> handler_return i w))"

fun run :: "'a action list \<Rightarrow> 'a world \<Rightarrow> 'a world option" where
  "run [] w = Some w"
| "run (a # as) w = (case step a w of None \<Rightarrow> None | Some w' \<Rightarrow> run as w')"

text \<open>The handler invocations and the appended requests of a trace, in order.\<close>

fun invoked :: "'a event list \<Rightarrow> 'a queuedCall list" where
  "invoked [] = []"
| "invoked (EvInvoke i e # evs) = e # invoked evs"
| "invoked (ev # evs) = invoked evs"

fun appended :: "'a event list \<Rightarrow> 'a queuedCall list" where
  "appended [] = []"
| "appended (EvAppend e # evs) = e # appended evs"
| "appended (ev # evs) = appended evs"

text \<open>The requests whose handler is running now.\<close>

fun in_flight :: "'a pc list \<Rightarrow> 'a queuedCall list" where
  "in_flight [] = []"
| "in_flight (InCall e # ps) = e # in_flight ps"
| "in_flight (p # ps) = in_flight ps"

subsection \<open>Observations on traces\<close>

text \<open>
  The requests a dispatcher has decided on (handler entered, or dropped), in the order of
  the decisions, and the requests fetched from the queue whose handler is not entered
  yet.
\<close>

fun dequeued :: "'a event list \<Rightarrow> 'a queuedCall list" where
  "dequeued [] = []"
| "dequeued (EvInvoke i e # evs) = e # dequeued evs"
| "dequeued (EvDrop i e # evs) = e # dequeued evs"
| "dequeued (ev # evs) = dequeued evs"

fun fetched :: "'a pc list \<Rightarrow> 'a queuedCall list" where
  "fetched [] = []"
| "fetched (InEach e # ps) = e # fetched ps"
| "fetched (InDefault e # ps) = e # fetched ps"
| "fetched (p # ps) = fetched ps"

text \<open>
  With at most one dispatcher goroutine, the appended requests are the decided ones, then
  the fetched one, then the queue.
\<close>

definition fifo_ok :: "'a world \<Rightarrow> bool" where
  "fifo_ok w = (appended (trace w) = dequeued (trace w) @ fetched (procs w) @ queue (bas w))"

section \<open>Properties\<close>

subsection \<open>The operations, spelled out\<close>

lemma Start_body_running:
  "running (bas w) \<Longrightarrow>
     Start_body w = (Some (Error (name (bas w) @ '' has already been started'')), w)"
  by (simp add: Start_body_def)

lemma Start_body_idle:
  "\<not> running (bas w) \<Longrightarrow>
     Start_body w =
       (None, w\<lparr>bas := (bas w)\<lparr>done_chan := Some (length (chans w)), runs := True\<rparr>,
                 chans := chans w @ [False],
                 procs := procs w @ [AtFor],
                 trace := trace w @ [EvMake (length (chans w)), EvGo (length (procs w)),
                                     EvSetRunning True]\<rparr>)"
  by (simp add: Start_body_def Start_make_def Start_set_def make_chan_def go_processRequests_def
      setRunning_def emit_def Let_def)

lemma Stop_body_idle:
  "\<not> running (bas w) \<Longrightarrow>
     Stop_body w = (Some (Error (name (bas w) @ '' is already stopped'')), w)"
  by (simp add: Stop_body_def)

lemma Stop_body_running:
  "running (bas w) \<Longrightarrow> done_chan (bas w) = Some c \<Longrightarrow> c < length (chans w) \<Longrightarrow> \<not> chans w ! c \<Longrightarrow>
     Stop_body w =
       (None, w\<lparr>bas := (bas w)\<lparr>runs := False\<rparr>,
                 chans := (chans w)[c := True],
                 trace := trace w @ [EvSetRunning False, EvClose c]\<rparr>)"
  by (simp add: Stop_body_def Stop_set_def Stop_close_def close_chan_def chan_open_def
      setRunning_def emit_def Let_def)

lemma foldl_snoc_copy: "foldl (\<lambda>passed arg. passed @ [f arg]) acc args = acc @ map f args"
  by (induction args arbitrary: acc) auto

lemma Request_running:
  "running (bas w) \<Longrightarrow>
     Request c args w =
       w\<lparr>bas := (bas w)\<lparr>queue := queue (bas w) @
                   [\<lparr>Func = OnRequest,
                     Args = [reflect_ValueOf (ctx_Args c), reflect_ValueOf (payload_Args args)]\<rparr>]\<rparr>,
         trace := trace w @
                   [EvAppend \<lparr>Func = OnRequest,
                     Args = [reflect_ValueOf (ctx_Args c), reflect_ValueOf (payload_Args args)]\<rparr>]\<rparr>"
  by (simp add: Request_def Request_queue_def queueRequest_def Append_def emit_def Let_def)

lemma Request_idle: "\<not> running (bas w) \<Longrightarrow> Request c args w = w"
  by (simp add: Request_def)

subsection \<open>Traces\<close>

lemma invoked_append: "invoked (xs @ ys) = invoked xs @ invoked ys"
  by (induction xs rule: invoked.induct) auto

lemma appended_append: "appended (xs @ ys) = appended xs @ appended ys"
  by (induction xs rule: appended.induct) auto

lemma dequeued_append: "dequeued (xs @ ys) = dequeued xs @ dequeued ys"
  by (induction xs rule: dequeued.induct) auto

lemma subseq_invoked_dequeued: "subseq (invoked evs) (dequeued evs)"
  by (induction evs rule: dequeued.induct) auto

lemma in_flight_length: "length (in_flight ps) \<le> length ps"
  by (induction ps rule: in_flight.induct) auto

subsection \<open>A call that is not interrupted\<close>

text \<open>
  A caller that runs the statements of \<^verbatim>\<open>Start\<close>, \<^verbatim>\<open>Stop\<close> or \<^verbatim>\<open>Request\<close> one after the other,
  with nothing in between, does what \<open>Start_body\<close>, \<open>Stop_body\<close> and \<open>Request\<close> say.
\<close>

lemma uninterrupted_Start:
  assumes "\<not> panicked w" "\<not> running (bas w)"
  shows "run [CallStart, Advance (length (callers w)), Advance (length (callers w)),
              Advance (length (callers w))] w =
         Some ((emit EvOnStart (snd (Start_body w)))\<lparr>callers := callers w @ [InOnStart]\<rparr>)"
  using assms
  by (simp add: step_def advance_def set_frame_def Start_body_def Start_make_def Start_set_def
      make_chan_def go_processRequests_def setRunning_def emit_def Let_def)

lemma uninterrupted_Stop:
  assumes "\<not> panicked w" "running (bas w)" "fst (Stop_body w) = None"
  shows "run [CallStop, Advance (length (callers w)), Advance (length (callers w))] w =
         Some ((emit EvOnStop (snd (Stop_body w)))\<lparr>callers := callers w @ [InOnStop]\<rparr>)"
  using assms
  by (auto simp: step_def advance_def set_frame_def Stop_body_def Stop_set_def Stop_close_def
      close_chan_def setRunning_def emit_def Let_def split: option.splits if_splits)

lemma uninterrupted_Request:
  assumes "\<not> panicked w"
  shows "run (if running (bas w) then [CallRequest c args, Advance (length (callers w))]
              else [CallRequest c args]) w =
         Some (if running (bas w)
               then (Request c args w)\<lparr>callers := callers w @ [Returned]\<rparr>
               else Request c args w)"
  using assms
  by (simp add: step_def advance_def set_frame_def Request_def Request_queue_def
      queueRequest_def emit_def Let_def)

section \<open>The claims\<close>

lemmas eval_defs = init_def NewBaseService_def NewQueue_def step_def Start_def Stop_def
  Start_body_def Stop_body_def Start_make_def Start_set_def Stop_set_def Stop_close_def
  OnStart_def OnStop_def running_def setRunning_def Done_def
  make_chan_def emit_def go_processRequests_def close_chan_def chan_open_def recv_ready_def
  Request_def Request_queue_def queueRequest_def ctx_Args_def payload_Args_def Append_def
  SetRateLimit_def CheckRateLimit_def advance_def hook_return_def set_frame_def sched_def
  quit_def handler_return_def set_pc_def Signal_def Next_def each_def first_ctx_def
  fits_OnRequest_def Let_def

subsection \<open>Lifecycle\<close>

text \<open>
  C3, as the code has it. The claim says the lifecycle is one-shot; the code keeps one
  flag, so a stopped service can be started again. Here a service is started, stopped
  with success, and started again with success.
\<close>

theorem C3_restart_is_accepted:
  "fst (Start OnStart (init ''Test'' :: string world)) = None \<and>
   fst (Stop OnStop (snd (Start OnStart (init ''Test'' :: string world)))) = None \<and>
   fst (Start OnStart (snd (Stop OnStop (snd (Start OnStart (init ''Test'' :: string world)))))) = None"
  by (simp add: eval_defs)

text \<open>
  C3, amended: \<^verbatim>\<open>Start\<close> is rejected exactly while the service is running. A successful
  \<^verbatim>\<open>Stop\<close> leaves the service not running, and the next \<^verbatim>\<open>Start\<close> is accepted: it makes a
  new done channel, spawns a new dispatcher goroutine, sets the flag and returns what the
  \<^verbatim>\<open>OnStart\<close> hook returns.
\<close>

theorem C3_start_rejected_only_while_running:
  "(fst (Start_body w) = None) = (\<not> running (bas w)) \<and>
   (Stop_body w = (None, w') \<longrightarrow>
      \<not> running (bas w') \<and>
      fst (Start_body w') = None \<and>
      running (bas (snd (Start_body w'))) \<and>
      Done (bas (snd (Start_body w'))) = Some (length (chans w')) \<and>
      procs (snd (Start_body w')) = procs w' @ [AtFor] \<and>
      Start h w' = h (emit EvOnStart (snd (Start_body w'))))"
proof -
  have a: "(fst (Start_body w) = None) = (\<not> running (bas w))"
    by (cases "running (bas w)") (simp_all add: Start_body_running Start_body_idle)
  have b: "\<not> running (bas w')" if "Stop_body w = (None, w')"
    using that
    by (auto simp: Stop_body_def Stop_set_def Stop_close_def close_chan_def setRunning_def
        emit_def running_def Let_def split: if_splits option.splits)
  show ?thesis
    using a b by (auto simp: Start_body_idle Start_def running_def Done_def)
qed

theorem C3_start_rejected_only_while_running_witness:
  "Stop_body (snd (Start OnStart (init ''Test'' :: string world))) =
     (None, snd (Stop_body (snd (Start OnStart (init ''Test'' :: string world))))) \<and>
   Start OnStart (snd (Stop_body (snd (Start OnStart (init ''Test'' :: string world))))) =
     (None, emit EvOnStart (snd (Start_body (snd (Stop_body (snd (Start OnStart (init ''Test'' :: string world))))))))"
proof -
  have s: "Stop_body (snd (Start OnStart (init ''Test'' :: string world))) =
      (None, snd (Stop_body (snd (Start OnStart (init ''Test'' :: string world)))))"
    by (simp add: eval_defs)
  from C3_start_rejected_only_while_running
         [of "snd (Start OnStart (init ''Test'' :: string world))"
             "snd (Stop_body (snd (Start OnStart (init ''Test'' :: string world))))" OnStart] s
  show ?thesis by (simp add: OnStart_def)
qed

text \<open>
  C7: a \<^verbatim>\<open>Start\<close> that is accepted makes the done channel, spawns the dispatcher
  goroutine, sets the flag and then calls the \<^verbatim>\<open>OnStart\<close> hook, in this order; it returns
  whatever the hook returns and does nothing after it. A hook that only returns an error
  leaves the service running with its dispatcher.
\<close>

theorem C7_start_sets_running_before_the_hook:
  "\<not> running (bas w) \<Longrightarrow>
     Start h w =
       h (w\<lparr>bas := (bas w)\<lparr>done_chan := Some (length (chans w)), runs := True\<rparr>,
            chans := chans w @ [False],
            procs := procs w @ [AtFor],
            trace := trace w @ [EvMake (length (chans w)), EvGo (length (procs w)),
                                EvSetRunning True, EvOnStart]\<rparr>) \<and>
     Start (\<lambda>u. (Some e, u)) w =
       (Some e,
        w\<lparr>bas := (bas w)\<lparr>done_chan := Some (length (chans w)), runs := True\<rparr>,
          chans := chans w @ [False],
          procs := procs w @ [AtFor],
          trace := trace w @ [EvMake (length (chans w)), EvGo (length (procs w)),
                              EvSetRunning True, EvOnStart]\<rparr>) \<and>
     running (bas (snd (Start (\<lambda>u. (Some e, u)) w))) \<and>
     procs (snd (Start (\<lambda>u. (Some e, u)) w)) = procs w @ [AtFor]"
  by (simp add: Start_def Start_body_idle emit_def running_def)

theorem C7_start_sets_running_before_the_hook_witness:
  "\<not> running (bas (init ''Test'' :: string world)) \<and>
   Start (\<lambda>u. (Some (Error ''hook failed''), u)) (init ''Test'' :: string world) =
     (Some (Error ''hook failed''),
      \<lparr>bas = \<lparr>name = ''Test'', runs = True, queue = [], done_chan = Some 0, rlimit = None\<rparr>,
       chans = [False], cancelled = {}, procs = [AtFor], callers = [],
       panicked = False,
       trace = [EvMake 0, EvGo 0, EvSetRunning True, EvOnStart]\<rparr>)"
proof -
  have i: "\<not> running (bas (init ''Test'' :: string world))"
    by (simp add: eval_defs)
  from C7_start_sets_running_before_the_hook
         [OF i, of "\<lambda>u. (Some (Error ''hook failed''), u)" "Error ''hook failed''"] i
  show ?thesis by (simp add: init_def NewBaseService_def NewQueue_def)
qed

subsection \<open>Requests to a service that is not running\<close>

lemma step_CallRequest_idle:
  "\<not> running (bas w) \<Longrightarrow> \<not> panicked w \<Longrightarrow> step (CallRequest c args) w = Some w"
  by (simp add: step_def)

text \<open>
  C4: \<^verbatim>\<open>Request\<close> on a service that is not running (never started, or stopped) returns
  nothing and leaves the world as it was: nothing is appended to the queue, and whatever
  happens afterwards is what would have happened without the call, so no handler is ever
  invoked for it.
\<close>

theorem C4_request_while_not_running_is_ignored:
  "\<not> running (bas w) \<Longrightarrow>
     Request c args w = w \<and>
     Len (bas (Request c args w)) = Len (bas w) \<and>
     (\<not> panicked w \<longrightarrow> run (CallRequest c args # acts) w = run acts w)"
  by (simp add: Request_idle step_CallRequest_idle)

theorem C4_request_while_not_running_is_ignored_witness:
  "\<not> running (bas (init ''Test'' :: string world)) \<and>
   Request (Some 0) (Some ''testData'') (init ''Test'') = init ''Test'' \<and>
   Request None None (init ''Test'' :: string world) = init ''Test'' \<and>
   \<not> running (bas (snd (Stop OnStop (snd (Start OnStart (init ''Test'' :: string world)))))) \<and>
   Request (Some 0) (Some ''testData'') (snd (Stop OnStop (snd (Start OnStart (init ''Test''))))) =
     snd (Stop OnStop (snd (Start OnStart (init ''Test'')))) \<and>
   run (CallRequest (Some 0) (Some ''testData'') #
          [CallStart, Advance 0, Advance 0, Advance 0, HookReturn 0 None, Sched 0]) (init ''Test'') =
     run [CallStart, Advance 0, Advance 0, Advance 0, HookReturn 0 None, Sched 0] (init ''Test'')"
proof -
  have i: "\<not> running (bas (init ''Test'' :: string world))"
    by (simp add: eval_defs)
  have s: "\<not> running (bas (snd (Stop OnStop (snd (Start OnStart (init ''Test'' :: string world))))))"
    by (simp add: eval_defs)
  have p: "\<not> panicked (init ''Test'' :: string world)"
    by (simp add: init_def)
  from C4_request_while_not_running_is_ignored
         [OF i, of "Some 0" "Some ''testData''"
            "[CallStart, Advance 0, Advance 0, Advance 0, HookReturn 0 None, Sched 0]"]
       C4_request_while_not_running_is_ignored [OF i, of None None]
       C4_request_while_not_running_is_ignored [OF s, of "Some 0" "Some ''testData''"] i s p
  show ?thesis by simp
qed

subsection \<open>Rate limit\<close>

text \<open>
  C8: \<^verbatim>\<open>SetRateLimit(0)\<close> clears the limiter, and \<^verbatim>\<open>CheckRateLimit\<close> then returns without a
  call of \<^verbatim>\<open>Take\<close>; \<^verbatim>\<open>SetRateLimit(n)\<close> for \<open>n > 0\<close> installs
  \<^verbatim>\<open>ratelimit.New(n, ratelimit.WithoutSlack)\<close>; \<^verbatim>\<open>CheckRateLimit\<close> calls \<^verbatim>\<open>Take\<close> on the limiter
  configured when it is called, and leaves the world as it was exactly when there is none.
\<close>

theorem C8_rate_limit_set_and_checked:
  "rlimit (SetRateLimit 0 b) = None \<and>
   CheckRateLimit (w\<lparr>bas := SetRateLimit 0 (bas w)\<rparr>) = w\<lparr>bas := SetRateLimit 0 (bas w)\<rparr> \<and>
   (0 < n \<longrightarrow> rlimit (SetRateLimit n b) = Some (ratelimit_New n [WithoutSlack])) \<and>
   (rlimit (bas w) = Some l \<longrightarrow> CheckRateLimit w = emit (EvTake l) w) \<and>
   ((CheckRateLimit w = w) = (rlimit (bas w) = None))"
proof -
  have "emit (EvTake l) w \<noteq> w" for l :: limiter
  proof
    assume "emit (EvTake l) w = w"
    then have "trace (emit (EvTake l) w) = trace w" by simp
    then show False by (simp add: emit_def)
  qed
  then show ?thesis
    by (auto simp: SetRateLimit_def CheckRateLimit_def split: option.splits)
qed

theorem C8_rate_limit_set_and_checked_witness:
  "rlimit (SetRateLimit 2 (NewBaseService ''Test'' :: string BaseService)) =
     Some (ratelimit_New 2 [WithoutSlack]) \<and>
   CheckRateLimit ((init ''Test'' :: string world)\<lparr>bas := SetRateLimit 2 (NewBaseService ''Test'')\<rparr>) =
     emit (EvTake (ratelimit_New 2 [WithoutSlack]))
       ((init ''Test'')\<lparr>bas := SetRateLimit 2 (NewBaseService ''Test'')\<rparr>) \<and>
   rlimit (SetRateLimit 0 (SetRateLimit 2 (NewBaseService ''Test'' :: string BaseService))) = None \<and>
   CheckRateLimit (init ''Test'' :: string world) = init ''Test''"
proof -
  have l: "rlimit (bas ((init ''Test'' :: string world)\<lparr>bas := SetRateLimit 2 (NewBaseService ''Test'')\<rparr>)) =
      Some (ratelimit_New 2 [WithoutSlack])"
    by (simp add: SetRateLimit_def)
  have z: "rlimit (bas (init ''Test'' :: string world)) = None"
    by (simp add: init_def NewBaseService_def)
  have A: "rlimit (SetRateLimit 2 (NewBaseService ''Test'' :: string BaseService)) =
     Some (ratelimit_New 2 [WithoutSlack])"
    using C8_rate_limit_set_and_checked
      [where n = 2 and b = "NewBaseService ''Test'' :: string BaseService",
        THEN conjunct2, THEN conjunct2, THEN conjunct1]
    by simp
  have B: "CheckRateLimit ((init ''Test'' :: string world)\<lparr>bas := SetRateLimit 2 (NewBaseService ''Test'')\<rparr>) =
     emit (EvTake (ratelimit_New 2 [WithoutSlack]))
       ((init ''Test'')\<lparr>bas := SetRateLimit 2 (NewBaseService ''Test'')\<rparr>)"
    using C8_rate_limit_set_and_checked
      [where w = "(init ''Test'' :: string world)\<lparr>bas := SetRateLimit 2 (NewBaseService ''Test'')\<rparr>"
         and l = "ratelimit_New 2 [WithoutSlack]",
        THEN conjunct2, THEN conjunct2, THEN conjunct2, THEN conjunct1] l
    by simp
  have C: "rlimit (SetRateLimit 0 (SetRateLimit 2 (NewBaseService ''Test'' :: string BaseService))) = None"
    using C8_rate_limit_set_and_checked
      [where b = "SetRateLimit 2 (NewBaseService ''Test'' :: string BaseService)", THEN conjunct1]
    by simp
  have D: "CheckRateLimit (init ''Test'' :: string world) = init ''Test''"
    using C8_rate_limit_set_and_checked
      [where w = "init ''Test'' :: string world",
        THEN conjunct2, THEN conjunct2, THEN conjunct2, THEN conjunct2] z
    by simp
  from A B C D show ?thesis by simp
qed

subsection \<open>The done channel\<close>

lemma never_started:
  "CallStart \<notin> set acts \<Longrightarrow> Done (bas w) = None \<Longrightarrow> \<not> running (bas w) \<Longrightarrow> callers w = [] \<Longrightarrow>
   run acts w = Some w' \<Longrightarrow> Done (bas w') = None"
proof (induction acts arbitrary: w)
  case Nil
  then show ?case by simp
next
  case (Cons a acts)
  from Cons.prems(5) obtain w1 where s: "step a w = Some w1" and r: "run acts w1 = Some w'"
    by (auto split: option.splits)
  from Cons.prems(1) have a: "a \<noteq> CallStart" by auto
  have "Done (bas w1) = None \<and> \<not> running (bas w1) \<and> callers w1 = []"
  proof (cases a)
    case (Sched i)
    with s Cons.prems(2,3,4) show ?thesis
      by (auto simp: step_def sched_def set_pc_def emit_def Done_def running_def
          split: if_splits option.splits pc.splits verdict.splits)
  qed (use s a Cons.prems(2,3,4) in \<open>auto simp: step_def emit_def SetRateLimit_def
        CheckRateLimit_def running_def Done_def advance_def hook_return_def quit_def
        handler_return_def set_pc_def split: if_splits option.splits pc.splits\<close>)
  with Cons.IH [of w1] Cons.prems(1) r show ?case by simp
qed

text \<open>
  C10: the constructor leaves \<^verbatim>\<open>done\<close> nil, so \<^verbatim>\<open>Done()\<close> returns the nil channel, on which
  a receive is never ready, whatever happens to the channels later; \<^verbatim>\<open>Done()\<close> stays nil
  along every execution in which \<^verbatim>\<open>Start\<close> is not called; every accepted \<^verbatim>\<open>Start\<close> makes
  a channel that was not allocated before, open, and stores it in \<^verbatim>\<open>done\<close>.
\<close>

theorem C10_done_is_nil_until_start:
  "Done (NewBaseService nm) = None \<and>
   \<not> recv_ready cs (Done (NewBaseService nm)) \<and>
   (CallStart \<notin> set acts \<longrightarrow> run acts (init nm) = Some u \<longrightarrow> Done (bas u) = None) \<and>
   (\<not> running (bas w) \<longrightarrow>
      Done (bas (snd (Start_body w))) = Some (length (chans w)) \<and>
      chans (snd (Start_body w)) = chans w @ [False] \<and>
      chan_open (chans (snd (Start_body w))) (Done (bas (snd (Start_body w)))) \<and>
      \<not> chan_open (chans w) (Done (bas (snd (Start_body w)))) \<and>
      \<not> recv_ready (chans w) (Done (bas (snd (Start_body w)))))"
proof -
  have "Done (bas u) = None" if "CallStart \<notin> set acts" "run acts (init nm) = Some u"
    using never_started [OF that(1) _ _ _ that(2)]
    by (simp add: init_def NewBaseService_def Done_def running_def)
  then show ?thesis
    by (auto simp: Start_body_idle NewBaseService_def Done_def recv_ready_def chan_open_def)
qed

theorem C10_done_is_nil_until_start_witness:
  "Done (bas (init ''Test'' :: string world)) = None \<and>
   run [CallStop, CallRequest (Some 0) (Some ''testData''), CallSetRateLimit 1] (init ''Test'' :: string world) \<noteq> None \<and>
   map_option (\<lambda>u. Done (bas u))
     (run [CallStop, CallRequest (Some 0) (Some ''testData''), CallSetRateLimit 1] (init ''Test'' :: string world)) = Some None \<and>
   Done (bas (snd (Start_body (init ''Test'' :: string world)))) = Some 0 \<and>
   Done (bas (snd (Start_body (snd (Stop_body (snd (Start_body (init ''Test'' :: string world))))))))
     = Some 1"
proof -
  obtain u where u: "run [CallStop, CallRequest (Some 0) (Some ''testData''), CallSetRateLimit 1] (init ''Test'' :: string world) = Some u"
    by (simp add: eval_defs)
  have A: "Done (bas u) = None"
    using C10_done_is_nil_until_start
      [where acts = "[CallStop, CallRequest (Some 0) (Some ''testData''), CallSetRateLimit 1]" and nm = "''Test''" and u = u,
        THEN conjunct2, THEN conjunct2, THEN conjunct1] u
    by simp
  have i: "\<not> running (bas (init ''Test'' :: string world))"
    by (simp add: eval_defs)
  have B: "Done (bas (snd (Start_body (init ''Test'' :: string world)))) = Some 0"
    using C10_done_is_nil_until_start
      [where w = "init ''Test'' :: string world", THEN conjunct2, THEN conjunct2, THEN conjunct2] i
    by (simp add: init_def)
  have j: "\<not> running (bas (snd (Stop_body (snd (Start_body (init ''Test'' :: string world))))))"
    "length (chans (snd (Stop_body (snd (Start_body (init ''Test'' :: string world)))))) = 1"
    by (simp_all add: eval_defs)
  have C: "Done (bas (snd (Start_body (snd (Stop_body (snd (Start_body (init ''Test'' :: string world)))))))) = Some 1"
    using C10_done_is_nil_until_start
      [where w = "snd (Stop_body (snd (Start_body (init ''Test'' :: string world))))",
        THEN conjunct2, THEN conjunct2, THEN conjunct2] j
    by simp
  from A B C u show ?thesis by (simp add: init_def NewBaseService_def Done_def)
qed

subsection \<open>Overlapping calls of Stop\<close>

lemma start_or_stop_rejected_by_the_guard:
  "(running (bas w) \<longrightarrow>
      Start h w = (Some (Error (name (bas w) @ '' has already been started'')), w)) \<and>
   (\<not> running (bas w) \<longrightarrow>
      Stop h w = (Some (Error (name (bas w) @ '' is already stopped'')), w))"
  by (simp add: Start_def Stop_def Start_body_running Stop_body_idle)

text \<open>
  C6 (a second \<^verbatim>\<open>Start\<close> or \<^verbatim>\<open>Stop\<close> is rejected, so that the done channel is closed at most
  once), evaluated on two overlapping calls of \<^verbatim>\<open>Stop\<close>, where it fails. The guard of
  \<^verbatim>\<open>Stop\<close> (line 207) and \<^verbatim>\<open>setRunning(false)\<close> (line 211) take the lock separately, and
  \<^verbatim>\<open>close(bas.done)\<close> (line 212) takes none: both callers pass the guard while the service
  is running, the first closes the done channel, and the \<^verbatim>\<open>close\<close> of the second panics
  on the closed channel.
\<close>

theorem C6_overlapping_stops_close_the_channel_twice:
  "map_option trace
     (run [CallStart, Advance 0, Advance 0, Advance 0, HookReturn 0 None,
           CallStop, CallStop, Advance 1, Advance 1, Advance 2, Advance 2]
        (init ''Test'' :: string world)) =
     Some [EvMake 0, EvGo 0, EvSetRunning True, EvOnStart, EvStartRet None,
           EvSetRunning False, EvClose 0, EvOnStop,
           EvSetRunning False, EvStopRet (Some (Panic ''close of nil or closed channel''))] \<and>
   map_option panicked
     (run [CallStart, Advance 0, Advance 0, Advance 0, HookReturn 0 None,
           CallStop, CallStop, Advance 1, Advance 1, Advance 2, Advance 2]
        (init ''Test'' :: string world)) = Some True"
  by (simp add: eval_defs)

subsection \<open>A request with nil arguments\<close>

lemma each_decides:
  "first_ctx e = Some c \<Longrightarrow>
     each e w =
       (if c \<in> cancelled w \<or> recv_ready (chans w) (Done (bas w)) then Dropped else Default)"
  by (simp add: each_def)

text \<open>
  C5 (a dequeued request is dropped when its context is cancelled or the done channel is
  closed, and otherwise the handler is invoked with its context and arguments),
  evaluated on \<^verbatim>\<open>Request(ctx, nil)\<close> with a live context on a running service, where it
  fails. \<^verbatim>\<open>reflect.ValueOf(nil)\<close> is the zero value; the \<^verbatim>\<open>select\<close> takes \<^verbatim>\<open>default\<close>, and
  \<^verbatim>\<open>e.Func.Call(e.Args)\<close> panics in the dispatcher goroutine: the request is not dropped
  and the handler is not invoked. \<^verbatim>\<open>Request(nil, args)\<close> panics one statement earlier, in
  \<^verbatim>\<open>e.Args[0].Interface()\<close>.
\<close>

theorem C5_nil_args_panic_in_the_dispatcher:
  "map_option procs
     (run [CallStart, Advance 0, Advance 0, Advance 0, HookReturn 0 None,
           CallRequest (Some 0) None, Advance 1, Sched 0, Sched 0, Sched 0, Sched 0]
        (init ''Test'' :: string world)) =
     Some [InDefault \<lparr>Func = OnRequest, Args = [Context 0, Zero]\<rparr>] \<and>
   map_option trace
     (run [CallStart, Advance 0, Advance 0, Advance 0, HookReturn 0 None,
           CallRequest (Some 0) None, Advance 1, Sched 0, Sched 0, Sched 0, Sched 0, Sched 0]
        (init ''Test'' :: string world)) =
     Some [EvMake 0, EvGo 0, EvSetRunning True, EvOnStart, EvStartRet None,
           EvAppend \<lparr>Func = OnRequest, Args = [Context 0, Zero]\<rparr>] \<and>
   map_option panicked
     (run [CallStart, Advance 0, Advance 0, Advance 0, HookReturn 0 None,
           CallRequest (Some 0) None, Advance 1, Sched 0, Sched 0, Sched 0, Sched 0, Sched 0]
        (init ''Test'' :: string world)) = Some True \<and>
   map_option procs
     (run [CallStart, Advance 0, Advance 0, Advance 0, HookReturn 0 None,
           CallRequest None (Some ''testData''), Advance 1, Sched 0, Sched 0, Sched 0]
        (init ''Test'' :: string world)) =
     Some [InEach \<lparr>Func = OnRequest, Args = [Zero, Arg ''testData'']\<rparr>] \<and>
   map_option panicked
     (run [CallStart, Advance 0, Advance 0, Advance 0, HookReturn 0 None,
           CallRequest None (Some ''testData''), Advance 1, Sched 0, Sched 0, Sched 0, Sched 0]
        (init ''Test'' :: string world)) = Some True"
  by (simp add: eval_defs)

subsection \<open>The handler and the end of Stop\<close>

text \<open>
  C9 (the handler is never invoked before \<^verbatim>\<open>Start\<close> completes nor after \<^verbatim>\<open>Stop\<close>
  completes), evaluated on two executions, where it fails. In the first, the dispatcher
  takes \<^verbatim>\<open>default\<close> in the \<^verbatim>\<open>select\<close> of \<^verbatim>\<open>each\<close> while the service is running; \<^verbatim>\<open>Stop\<close> then
  runs to its end and returns; only then does the dispatcher reach line 296 and enter
  the handler. In the second, the request is made while the \<^verbatim>\<open>OnStart\<close> hook is still
  running, and the handler is entered before \<^verbatim>\<open>Start\<close> has returned.
\<close>

theorem C9_handler_invoked_after_stop_and_before_start_returns:
  "map_option trace
     (run [CallStart, Advance 0, Advance 0, Advance 0, HookReturn 0 None,
           CallRequest (Some 0) (Some ''testData''), Advance 1,
           Sched 0, Sched 0, Sched 0, Sched 0,
           CallStop, Advance 2, Advance 2, HookReturn 2 None,
           Sched 0]
        (init ''Test'' :: string world)) =
     Some [EvMake 0, EvGo 0, EvSetRunning True, EvOnStart, EvStartRet None,
           EvAppend \<lparr>Func = OnRequest, Args = [Context 0, Arg ''testData'']\<rparr>,
           EvSetRunning False, EvClose 0, EvOnStop, EvStopRet None,
           EvInvoke 0 \<lparr>Func = OnRequest, Args = [Context 0, Arg ''testData'']\<rparr>] \<and>
   map_option trace
     (run [CallStart, Advance 0, Advance 0, Advance 0,
           CallRequest (Some 0) (Some ''testData''), Advance 1,
           Sched 0, Sched 0, Sched 0, Sched 0, Sched 0]
        (init ''Test'' :: string world)) =
     Some [EvMake 0, EvGo 0, EvSetRunning True, EvOnStart,
           EvAppend \<lparr>Func = OnRequest, Args = [Context 0, Arg ''testData'']\<rparr>,
           EvInvoke 0 \<lparr>Func = OnRequest, Args = [Context 0, Arg ''testData'']\<rparr>] \<and>
   map_option callers
     (run [CallStart, Advance 0, Advance 0, Advance 0,
           CallRequest (Some 0) (Some ''testData''), Advance 1,
           Sched 0, Sched 0, Sched 0, Sched 0, Sched 0]
        (init ''Test'' :: string world)) = Some [InOnStart, Returned]"
  by (simp add: eval_defs)

subsection \<open>A second dispatcher after a restart\<close>

text \<open>
  C2 (at most one handler call is in flight at any instant), evaluated on a restarted
  service, where it fails. Each accepted \<^verbatim>\<open>Start\<close> spawns a dispatcher goroutine, and a
  goroutine reads \<^verbatim>\<open>bas.done\<close> anew at every check. The first dispatcher is inside the
  handler of \<open>r0\<close> while the service is stopped and started again; it is not stopped by
  the closed first done channel, and the second dispatcher calls the handler of \<open>r1\<close>
  while the handler of \<open>r0\<close> is still running.
\<close>

theorem C2_two_handlers_in_flight_after_restart:
  "map_option procs
     (run [CallStart, Advance 0, Advance 0, Advance 0, HookReturn 0 None,
           CallRequest (Some 0) (Some ''r0''), Advance 1,
           Sched 0, Sched 0, Sched 0, Sched 0, Sched 0,
           CallStop, Advance 2, Advance 2, HookReturn 2 None,
           CallStart, Advance 3, Advance 3, Advance 3, HookReturn 3 None,
           CallRequest (Some 0) (Some ''r1''), Advance 4,
           Sched 1, Sched 1, Sched 1, Sched 1, Sched 1]
        (init ''Test'' :: string world)) =
     Some [InCall \<lparr>Func = OnRequest, Args = [Context 0, Arg ''r0'']\<rparr>,
           InCall \<lparr>Func = OnRequest, Args = [Context 0, Arg ''r1'']\<rparr>] \<and>
   map_option (in_flight \<circ> procs)
     (run [CallStart, Advance 0, Advance 0, Advance 0, HookReturn 0 None,
           CallRequest (Some 0) (Some ''r0''), Advance 1,
           Sched 0, Sched 0, Sched 0, Sched 0, Sched 0,
           CallStop, Advance 2, Advance 2, HookReturn 2 None,
           CallStart, Advance 3, Advance 3, Advance 3, HookReturn 3 None,
           CallRequest (Some 0) (Some ''r1''), Advance 4,
           Sched 1, Sched 1, Sched 1, Sched 1, Sched 1]
        (init ''Test'' :: string world)) =
     Some [\<lparr>Func = OnRequest, Args = [Context 0, Arg ''r0'']\<rparr>,
           \<lparr>Func = OnRequest, Args = [Context 0, Arg ''r1'']\<rparr>]"
  by (simp add: eval_defs)

text \<open>
  C1 (handlers are invoked in the order the requests were appended), evaluated on a
  restarted service, where it fails. With the first dispatcher surviving the restart as
  above, \<open>r1\<close> and \<open>r2\<close> are appended in this order while the service is running; the first
  dispatcher fetches \<open>r1\<close>, the second fetches \<open>r2\<close> and calls its handler before the first
  calls the handler of \<open>r1\<close>.
\<close>

theorem C1_invocation_order_differs_after_restart:
  "map_option (appended \<circ> trace)
     (run [CallStart, Advance 0, Advance 0, Advance 0, HookReturn 0 None,
           CallRequest (Some 0) (Some ''r0''), Advance 1,
           Sched 0, Sched 0, Sched 0, Sched 0, Sched 0,
           CallStop, Advance 2, Advance 2, HookReturn 2 None,
           CallStart, Advance 3, Advance 3, Advance 3, HookReturn 3 None,
           CallRequest (Some 0) (Some ''r1''), Advance 4,
           CallRequest (Some 0) (Some ''r2''), Advance 5,
           Return 0, Sched 0,
           Sched 1, Sched 1, Sched 1, Sched 1, Sched 1,
           Sched 0, Sched 0]
        (init ''Test'' :: string world)) =
     Some [\<lparr>Func = OnRequest, Args = [Context 0, Arg ''r0'']\<rparr>,
           \<lparr>Func = OnRequest, Args = [Context 0, Arg ''r1'']\<rparr>,
           \<lparr>Func = OnRequest, Args = [Context 0, Arg ''r2'']\<rparr>] \<and>
   map_option (invoked \<circ> trace)
     (run [CallStart, Advance 0, Advance 0, Advance 0, HookReturn 0 None,
           CallRequest (Some 0) (Some ''r0''), Advance 1,
           Sched 0, Sched 0, Sched 0, Sched 0, Sched 0,
           CallStop, Advance 2, Advance 2, HookReturn 2 None,
           CallStart, Advance 3, Advance 3, Advance 3, HookReturn 3 None,
           CallRequest (Some 0) (Some ''r1''), Advance 4,
           CallRequest (Some 0) (Some ''r2''), Advance 5,
           Return 0, Sched 0,
           Sched 1, Sched 1, Sched 1, Sched 1, Sched 1,
           Sched 0, Sched 0]
        (init ''Test'' :: string world)) =
     Some [\<lparr>Func = OnRequest, Args = [Context 0, Arg ''r0'']\<rparr>,
           \<lparr>Func = OnRequest, Args = [Context 0, Arg ''r2'']\<rparr>,
           \<lparr>Func = OnRequest, Args = [Context 0, Arg ''r1'']\<rparr>]"
  by (simp add: eval_defs)

subsection \<open>A single dispatcher\<close>

lemma fetched_single:
  "length ps \<le> 1 \<Longrightarrow> i < length ps \<Longrightarrow>
     fetched (ps[i := p]) = (case p of InEach e \<Rightarrow> [e] | InDefault e \<Rightarrow> [e] | _ \<Rightarrow> [])"
  by (cases ps; cases p) auto

lemma fetched_single_nth:
  "length ps \<le> 1 \<Longrightarrow> i < length ps \<Longrightarrow>
     fetched ps = (case ps ! i of InEach e \<Rightarrow> [e] | InDefault e \<Rightarrow> [e] | _ \<Rightarrow> [])"
  using fetched_single [of ps i "ps ! i"] by simp

lemma fetched_snoc_AtFor: "fetched (ps @ [AtFor]) = fetched ps"
  by (induction ps rule: fetched.induct) auto

lemma advance_cases:
  assumes "advance k w = Some w'"
  shows "(procs w' = procs w \<or> procs w' = procs w @ [AtFor]) \<and>
         (queue (bas w') = queue (bas w) \<and> appended (trace w') = appended (trace w) \<or>
          (\<exists>e. queue (bas w') = queue (bas w) @ [e] \<and>
               appended (trace w') = appended (trace w) @ [e])) \<and>
         dequeued (trace w') = dequeued (trace w)"
proof -
  from assms have k: "k < length (callers w)"
    by (simp add: advance_def split: if_splits)
  show ?thesis
  proof (cases "callers w ! k")
    case StartMake
    with assms k show ?thesis
      by (auto simp: advance_def set_frame_def Start_make_def make_chan_def emit_def
          appended_append dequeued_append)
  next
    case StartGo
    with assms k show ?thesis
      by (auto simp: advance_def set_frame_def go_processRequests_def emit_def
          appended_append dequeued_append)
  next
    case StartSet
    with assms k show ?thesis
      by (auto simp: advance_def set_frame_def Start_set_def setRunning_def emit_def
          appended_append dequeued_append)
  next
    case StopSet
    with assms k show ?thesis
      by (auto simp: advance_def set_frame_def Stop_set_def setRunning_def emit_def
          appended_append dequeued_append)
  next
    case StopClose
    with assms k show ?thesis
      by (auto simp: advance_def set_frame_def Stop_close_def close_chan_def emit_def
          appended_append dequeued_append split: option.splits if_splits)
  next
    case (RequestQueue c args)
    with assms k show ?thesis
      by (auto simp: advance_def set_frame_def Request_queue_def queueRequest_def Append_def
          emit_def Let_def appended_append dequeued_append)
  qed (use assms k in \<open>simp_all add: advance_def\<close>)
qed

lemma procs_grow: "step a w = Some w' \<Longrightarrow> length (procs w) \<le> length (procs w')"
proof (cases a)
  case (Advance k)
  assume "step a w = Some w'"
  with Advance have "advance k w = Some w'"
    by (auto simp: step_def split: if_splits)
  from advance_cases [OF this] show ?thesis by auto
next
  case (Sched i)
  assume "step a w = Some w'"
  with Sched show ?thesis
    by (auto simp: step_def sched_def set_pc_def emit_def
        split: if_splits option.splits pc.splits verdict.splits)
qed (auto simp: step_def emit_def CheckRateLimit_def hook_return_def quit_def handler_return_def
      set_pc_def set_frame_def split: if_splits option.splits pc.splits frame.splits)

lemma fifo_step:
  assumes "fifo_ok w" "step a w = Some w'" "length (procs w') \<le> 1"
  shows "fifo_ok w'"
proof -
  from procs_grow [OF assms(2)] assms(3) have l: "length (procs w) \<le> 1" by simp
  from assms(1) have ap: "appended (trace w) = dequeued (trace w) @ fetched (procs w) @ queue (bas w)"
    by (simp add: fifo_ok_def)
  show ?thesis
  proof (cases a)
    case (Advance k)
    with assms have "advance k w = Some w'"
      by (auto simp: step_def split: if_splits)
    from advance_cases [OF this] ap show ?thesis
      by (auto simp: fifo_ok_def fetched_snoc_AtFor)
  next
    case (HookReturn k r)
    with assms ap show ?thesis
      by (auto simp: step_def hook_return_def set_frame_def emit_def fifo_ok_def
          appended_append dequeued_append split: if_splits frame.splits)
  next
    case (Sched i)
    with assms have s: "sched i w = Some w'"
      by (auto simp: step_def split: if_splits)
    then have i: "i < length (procs w)"
      by (simp add: sched_def split: if_splits)
    note fs = fetched_single [OF l i]
    note fn = fetched_single_nth [OF l i]
    show ?thesis
    proof (cases "procs w ! i")
      case AtFor
      with s i have w': "w' = w\<lparr>procs := (procs w)[i := InSelect (Done (bas w))]\<rparr>"
        by (simp add: sched_def set_pc_def)
      from ap fn AtFor show ?thesis by (simp add: w' fifo_ok_def fs)
    next
      case (InSelect d)
      with s i have w': "w' = w\<lparr>procs := (procs w)[i := InProcess]\<rparr>"
        by (simp add: sched_def set_pc_def split: if_splits)
      from ap fn InSelect show ?thesis by (simp add: w' fifo_ok_def fs)
    next
      case InProcess
      show ?thesis
      proof (cases "queue (bas w)")
        case Nil
        with s i InProcess have w': "w' = w\<lparr>procs := (procs w)[i := AtFor]\<rparr>"
          by (simp add: sched_def set_pc_def Next_def)
        from ap fn InProcess show ?thesis by (simp add: w' fifo_ok_def fs)
      next
        case (Cons e rest)
        with s i InProcess have w': "w' = w\<lparr>bas := (bas w)\<lparr>queue := rest\<rparr>, procs := (procs w)[i := InEach e]\<rparr>"
          by (simp add: sched_def set_pc_def Next_def)
        from ap fn InProcess Cons show ?thesis by (simp add: w' fifo_ok_def fs)
      qed
    next
      case (InEach e)
      show ?thesis
      proof (cases "each e w")
        case Dropped
        with s i InEach have w': "w' = w\<lparr>procs := (procs w)[i := InProcess], trace := trace w @ [EvDrop i e]\<rparr>"
          by (auto simp: sched_def set_pc_def emit_def)
        from ap fn InEach show ?thesis
          by (simp add: w' fifo_ok_def fs appended_append dequeued_append)
      next
        case Default
        with s i InEach have w': "w' = w\<lparr>procs := (procs w)[i := InDefault e]\<rparr>"
          by (auto simp: sched_def set_pc_def)
        from ap fn InEach show ?thesis
          by (simp add: w' fifo_ok_def fs)
      next
        case Crashed
        with s i InEach have w': "w' = w\<lparr>panicked := True\<rparr>"
          by (auto simp: sched_def)
        from ap show ?thesis by (simp add: w' fifo_ok_def)
      qed
    next
      case (InDefault e)
      show ?thesis
      proof (cases "fits_OnRequest e")
        case True
        with s i InDefault have w': "w' = w\<lparr>procs := (procs w)[i := InCall e], trace := trace w @ [EvInvoke i e]\<rparr>"
          by (auto simp: sched_def set_pc_def emit_def)
        from ap fn InDefault show ?thesis
          by (simp add: w' fifo_ok_def fs appended_append dequeued_append)
      next
        case False
        with s i InDefault have w': "w' = w\<lparr>panicked := True\<rparr>"
          by (auto simp: sched_def)
        from ap show ?thesis by (simp add: w' fifo_ok_def)
      qed
    next
      case (InCall e)
      with s i show ?thesis by (simp add: sched_def)
    next
      case Exited
      with s i show ?thesis by (simp add: sched_def)
    qed
  next
    case (Return i)
    with assms have s: "handler_return i w = Some w'"
      by (auto simp: step_def split: if_splits)
    then have i: "i < length (procs w)"
      by (simp add: handler_return_def split: if_splits)
    note fs = fetched_single [OF l i]
    note fn = fetched_single_nth [OF l i]
    from s i obtain e where e: "procs w ! i = InCall e"
      and w': "w' = w\<lparr>procs := (procs w)[i := InProcess], trace := trace w @ [EvReturn i e]\<rparr>"
      by (cases "procs w ! i") (auto simp: handler_return_def set_pc_def emit_def)
    from ap fn e show ?thesis
      by (simp add: w' fifo_ok_def fs appended_append dequeued_append)
  next
    case (Quit i)
    with assms have s: "quit i w = Some w'"
      by (auto simp: step_def split: if_splits)
    then have i: "i < length (procs w)"
      by (simp add: quit_def split: if_splits)
    note fs = fetched_single [OF l i]
    note fn = fetched_single_nth [OF l i]
    from s i obtain d where d: "procs w ! i = InSelect d"
      and w': "w' = w\<lparr>procs := (procs w)[i := Exited]\<rparr>"
      by (cases "procs w ! i") (auto simp: quit_def set_pc_def split: if_splits)
    from ap fn d show ?thesis
      by (simp add: w' fifo_ok_def fs)
  qed (use assms ap in \<open>auto simp: step_def emit_def CheckRateLimit_def SetRateLimit_def fifo_ok_def
         appended_append dequeued_append split: if_splits option.splits\<close>)
qed

lemma procs_grow_run: "run acts w = Some w' \<Longrightarrow> length (procs w) \<le> length (procs w')"
proof (induction acts arbitrary: w)
  case Nil
  then show ?case by simp
next
  case (Cons a acts)
  then obtain w1 where "step a w = Some w1" "run acts w1 = Some w'"
    by (auto split: option.splits)
  with Cons.IH [of w1] procs_grow [of a w w1] show ?case by simp
qed

lemma fifo_run:
  "fifo_ok w \<Longrightarrow> run acts w = Some w' \<Longrightarrow> length (procs w') \<le> 1 \<Longrightarrow> fifo_ok w'"
proof (induction acts arbitrary: w)
  case Nil
  then show ?case by simp
next
  case (Cons a acts)
  then obtain w1 where s: "step a w = Some w1" and r: "run acts w1 = Some w'"
    by (auto split: option.splits)
  from procs_grow_run [OF r] Cons.prems(3) have "length (procs w1) \<le> 1" by simp
  with Cons.prems(1) s have "fifo_ok w1" by (rule fifo_step)
  from this r Cons.prems(3) show ?case by (rule Cons.IH)
qed

text \<open>
  As long as only one dispatcher goroutine was ever spawned (line 181 ran at most once),
  at most one handler call is in flight, the dispatcher decides on the requests in the
  order they were appended, and the handler invocations are a subsequence of the appended
  requests. This holds for every interleaving of the statements of callers and
  dispatcher.
\<close>

lemma single_dispatcher_is_sequential_and_fifo:
  assumes "run acts (init nm) = Some w" "length (procs w) \<le> 1"
  shows "length (in_flight (procs w)) \<le> 1"
    and "prefix (dequeued (trace w)) (appended (trace w))"
    and "subseq (invoked (trace w)) (appended (trace w))"
proof -
  from in_flight_length [of "procs w"] assms(2) show "length (in_flight (procs w)) \<le> 1"
    by simp
  have "fifo_ok (init nm)"
    by (simp add: fifo_ok_def init_def NewBaseService_def NewQueue_def)
  from this assms have "fifo_ok w" by (rule fifo_run)
  then show p: "prefix (dequeued (trace w)) (appended (trace w))"
    by (simp add: fifo_ok_def)
  then have "subseq (dequeued (trace w)) (appended (trace w))"
    by (rule prefix_imp_subseq)
  with subseq_invoked_dequeued [of "trace w"]
  show "subseq (invoked (trace w)) (appended (trace w))"
    by (rule subseq_order.order_trans)
qed

end
